theory Spec2Isabelle
  imports Main "HOL-Library.AList"
begin

section \<open>Vending machine purchase service\<close>

text \<open>
  A shallow embedding of \<^verbatim>\<open>app/services/purchase_service.py\<close>.  Python integers are
  unbounded, so amounts, prices and quantities are \<open>int\<close>; on \<open>int\<close> the HOL operators
  \<open>div\<close> and \<open>mod\<close> round towards minus infinity exactly as Python's \<^verbatim>\<open>//\<close> and \<^verbatim>\<open>%\<close>
  do, except that Python raises \<^verbatim>\<open>ZeroDivisionError\<close> for a zero divisor, which the
  model writes out.  The process-wide \<^verbatim>\<open>settings.SUPPORTED_DENOMINATIONS\<close> is declared
  in \<^verbatim>\<open>app.config\<close>; every function that reads it takes it as its first argument
  \<open>denoms\<close>.
\<close>

subsection \<open>Exceptions and Python values\<close>

text \<open>
  \<^verbatim>\<open>ValueError(name, *data)\<close> is a \<open>ValueError\<close> carrying its first argument and the
  integers attached after it.
\<close>

datatype py_error = ValueError string "int list" | ZeroDivisionError

text \<open>
  The values stored in the dictionaries the service returns.  A dictionary is an
  association list in insertion order.
\<close>

datatype pyval = PyInt int | PyStr string | PyDict "(string \<times> int) list"

subsection \<open>Sorting the denominations\<close>

text \<open>
  \<^verbatim>\<open>sorted(xs, reverse=True)\<close>: descending order.  Equal integers cannot be told
  apart, so the order among them does not matter.
\<close>

definition sorted_reverse :: "int list \<Rightarrow> int list" where
  "sorted_reverse xs = rev (sort xs)"

subsection \<open>Denomination validator\<close>

text \<open>
  The \<^verbatim>\<open>for denom in denominations: remaining = remaining % denom\<close> loop.
\<close>

fun mod_loop :: "int list \<Rightarrow> int \<Rightarrow> py_error + int" where
  "mod_loop [] remaining = Inr remaining"
| "mod_loop (denom # rest) remaining =
     (if denom = 0 then Inl ZeroDivisionError
      else mod_loop rest (remaining mod denom))"

definition is_valid_denomination_amount :: "int list \<Rightarrow> int \<Rightarrow> py_error + bool" where
  "is_valid_denomination_amount denoms amount =
     (if amount \<le> 0 then Inr False
      else
        let denominations = sorted_reverse denoms
        in (case mod_loop denominations amount of
              Inl e \<Rightarrow> Inl e
            | Inr remaining \<Rightarrow> Inr (remaining = 0)))"

definition can_make_change :: "int list \<Rightarrow> int \<Rightarrow> py_error + bool" where
  "can_make_change denoms change =
     (if change > 0 then is_valid_denomination_amount denoms change else Inr True)"

subsection \<open>Decimal strings\<close>

text \<open>
  \<^verbatim>\<open>str(d)\<close> on an integer: its decimal digits, with a leading minus sign when it is
  negative.  \<open>int_of_str\<close> reads such a string back, as \<^verbatim>\<open>int(s)\<close> does.
\<close>

definition digit_char :: "nat \<Rightarrow> char" where
  "digit_char n = ''0123456789'' ! n"

fun str_nat :: "nat \<Rightarrow> string" where
  "str_nat n =
     (if n < 10 then [digit_char n]
      else str_nat (n div 10) @ [digit_char (n mod 10)])"

declare str_nat.simps [simp del]

definition str :: "int \<Rightarrow> string" where
  "str i = (if i < 0 then CHR ''-'' # str_nat (nat (- i)) else str_nat (nat i))"

definition digit_val :: "char \<Rightarrow> nat" where
  "digit_val c = of_char c - 48"

definition nat_of_str :: "string \<Rightarrow> nat" where
  "nat_of_str s = foldl (\<lambda>acc c. 10 * acc + digit_val c) 0 s"

definition int_of_str :: "string \<Rightarrow> int" where
  "int_of_str s =
     (if s \<noteq> [] \<and> hd s = CHR ''-'' then - int (nat_of_str (tl s))
      else int (nat_of_str s))"

subsection \<open>Change calculator\<close>

text \<open>
  The loop of \<^verbatim>\<open>change_breakdown\<close> over the sorted denominations.  Its state is the
  dictionary \<open>result\<close> and the integer \<open>remaining\<close>; \<^verbatim>\<open>result[str(d)] = count\<close> is
  \<open>AList.update\<close>, which overwrites an existing key in place and appends a new one.
  The loop returns both variables as they are when it ends.
\<close>

fun breakdown_loop ::
  "int list \<Rightarrow> (string \<times> int) list \<Rightarrow> int \<Rightarrow> py_error + ((string \<times> int) list \<times> int)"
where
  "breakdown_loop [] result remaining = Inr (result, remaining)"
| "breakdown_loop (d # rest) result remaining =
     (if remaining \<le> 0 then Inr (result, remaining)
      else if d = 0 then Inl ZeroDivisionError
      else
        let count = remaining div d
        in if count > 0
           then breakdown_loop rest (AList.update (str d) count result) (remaining - count * d)
           else breakdown_loop rest result remaining)"

definition change_breakdown :: "int list \<Rightarrow> int \<Rightarrow> py_error + (string \<times> pyval) list" where
  "change_breakdown denoms change =
     (let denominations = sorted_reverse denoms
      in (case breakdown_loop denominations [] change of
            Inl e \<Rightarrow> Inl e
          | Inr (result, remaining) \<Rightarrow>
              Inr [(''change'', PyInt change), (''denominations'', PyDict result)]))"

subsection \<open>Persistence layer\<close>

text \<open>
  Modelled from the spec: the declarations of \<^verbatim>\<open>Item\<close> and of its linked slot live in
  \<^verbatim>\<open>app.models\<close>.  The spec gives an item record the fields id, name, price,
  quantity and an optional linked slot with a mutable current item count.  The
  session is a store of items and slots by id, so that several items may share one
  slot; an item names its slot by id.
\<close>

record Slot =
  current_item_count :: int

record Item =
  name :: string
  price :: int
  quantity :: int
  slot_id :: "string option"

record Session =
  items :: "string \<rightharpoonup> Item"
  slots :: "string \<rightharpoonup> Slot"

text \<open>\<^verbatim>\<open>item.slot\<close>: the linked slot, or \<^verbatim>\<open>None\<close>.\<close>

definition slot :: "Session \<Rightarrow> Item \<Rightarrow> (string \<times> Slot) option" where
  "slot db item =
     (case slot_id item of
        None \<Rightarrow> None
      | Some sid \<Rightarrow> (case slots db sid of None \<Rightarrow> None | Some s \<Rightarrow> Some (sid, s)))"

subsection \<open>Purchase transaction\<close>

text \<open>
  \<^verbatim>\<open>purchase\<close> returns what it raises or returns, together with the session as the
  call leaves it.  \<^verbatim>\<open>db.commit()\<close> and \<^verbatim>\<open>db.refresh(item)\<close> keep the values just
  written.
\<close>

definition purchase ::
  "int list \<Rightarrow> Session \<Rightarrow> string \<Rightarrow> int \<Rightarrow> (py_error + (string \<times> pyval) list) \<times> Session"
where
  "purchase denoms db item_id cash_inserted =
     (case is_valid_denomination_amount denoms cash_inserted of
        Inl e \<Rightarrow> (Inl e, db)
      | Inr valid \<Rightarrow>
          if \<not> valid then (Inl (ValueError ''invalid_denomination'' []), db)
          else (case items db item_id of
            None \<Rightarrow> (Inl (ValueError ''item_not_found'' []), db)
          | Some item \<Rightarrow>
              if quantity item \<le> 0 then (Inl (ValueError ''out_of_stock'' []), db)
              else if cash_inserted < price item
              then (Inl (ValueError ''insufficient_cash'' [price item, cash_inserted]), db)
              else
                let change = cash_inserted - price item
                in (case can_make_change denoms change of
                      Inl e \<Rightarrow> (Inl e, db)
                    | Inr ok \<Rightarrow>
                        if \<not> ok then (Inl (ValueError ''cannot_make_change'' []), db)
                        else
                          let item' = item\<lparr>quantity := quantity item - 1\<rparr>;
                              db' = db\<lparr>items := (items db)(item_id \<mapsto> item')\<rparr>;
                              db'' = (case slot db' item' of
                                        None \<Rightarrow> db'
                                      | Some (sid, s) \<Rightarrow>
                                          db'\<lparr>slots := (slots db')(sid \<mapsto>
                                            s\<lparr>current_item_count := current_item_count s - 1\<rparr>)\<rparr>)
                          in (Inr [(''item'', PyStr (name item')),
                                   (''price'', PyInt (price item')),
                                   (''cash_inserted'', PyInt cash_inserted),
                                   (''change_returned'', PyInt change),
                                   (''remaining_quantity'', PyInt (quantity item')),
                                   (''message'', PyStr ''Purchase successful'')],
                              db''))))"

subsection \<open>The greedy decomposition, as the specification words it\<close>

text \<open>
  The specification's algorithm for the change calculator, written from its words and
  independently of \<open>breakdown_loop\<close>: take the denominations in the order given; at each
  step take \<open>count = remaining div denom\<close>, record the pair if the count is positive,
  subtract \<open>count * denom\<close> from the remaining amount; stop when the remaining amount
  reaches 0.  It yields the recorded pairs of denomination and count, in order.
\<close>

fun spec_greedy :: "int list \<Rightarrow> int \<Rightarrow> (int \<times> int) list" where
  "spec_greedy [] remaining = []"
| "spec_greedy (denom # rest) remaining =
     (if remaining = 0 then []
      else
        let count = remaining div denom
        in (if count > 0 then [(denom, count)] else []) @
           spec_greedy rest (remaining - count * denom))"

text \<open>The dictionary of a list of pairs: each denomination under its decimal string.\<close>

definition keyed :: "(int \<times> int) list \<Rightarrow> (string \<times> int) list" where
  "keyed pairs = map (\<lambda>(d, c). (str d, c)) pairs"

text \<open>The amount a list of pairs of denomination and count adds up to.\<close>

definition pairs_total :: "(int \<times> int) list \<Rightarrow> int" where
  "pairs_total pairs = (\<Sum>(d, c)\<leftarrow>pairs. d * c)"

subsection \<open>Sums of denomination values\<close>

text \<open>
  An amount is representable when it is a sum of denomination values, each usable any
  number of times; 0 is the empty sum.  \<open>combination cs ds\<close> is the same notion with
  the number of coins of each denomination written out.
\<close>

inductive representable :: "int list \<Rightarrow> int \<Rightarrow> bool" for denoms :: "int list" where
  empty_sum: "representable denoms 0"
| add_coin: "representable denoms n \<Longrightarrow> d \<in> set denoms \<Longrightarrow> representable denoms (n + d)"

code_pred representable .

definition combination :: "nat list \<Rightarrow> int list \<Rightarrow> int" where
  "combination cs ds = (\<Sum>(c, d)\<leftarrow>zip cs ds. int c * d)"

subsection \<open>An example session\<close>

text \<open>
  Three items, two of them in slot \<^verbatim>\<open>A1\<close>; used where a property is shown on a
  concrete purchase.
\<close>

definition demo_db :: Session where
  "demo_db =
     \<lparr>items =
        [''cola'' \<mapsto> \<lparr>name = ''Cola'', price = 10, quantity = 1, slot_id = Some ''A1''\<rparr>,
         ''chips'' \<mapsto> \<lparr>name = ''Chips'', price = 12, quantity = 0, slot_id = Some ''A1''\<rparr>,
         ''gum'' \<mapsto> \<lparr>name = ''Gum'', price = 12, quantity = 3, slot_id = None\<rparr>],
      slots = [''A1'' \<mapsto> \<lparr>current_item_count = 1\<rparr>]\<rparr>"

section \<open>Properties\<close>

lemma set_sorted_reverse: "set (sorted_reverse xs) = set xs"
  by (simp add: sorted_reverse_def)

lemma sorted_reverse_descending: "sorted_wrt (\<ge>) (sorted_reverse xs)"
  by (simp add: sorted_reverse_def sorted_wrt_rev)

lemma mod_loop_foldl:
  "0 \<notin> set xs \<Longrightarrow> mod_loop xs r = Inr (foldl (\<lambda>remaining denom. remaining mod denom) r xs)"
  by (induction xs arbitrary: r) auto

lemma mod_loop_error:
  "mod_loop xs r = Inl e \<longleftrightarrow> 0 \<in> set xs \<and> e = ZeroDivisionError"
  by (induction xs arbitrary: r) auto

lemma is_valid_no_zero:
  "0 \<notin> set denoms \<Longrightarrow>
     is_valid_denomination_amount denoms amount =
       Inr (0 < amount \<and>
            foldl (\<lambda>remaining denom. remaining mod denom) amount (sorted_reverse denoms) = 0)"
  by (simp add: is_valid_denomination_amount_def mod_loop_foldl set_sorted_reverse)

lemma is_valid_True_no_zero:
  "is_valid_denomination_amount denoms amount = Inr True \<Longrightarrow> 0 \<notin> set denoms \<and> 0 < amount"
proof -
  assume h: "is_valid_denomination_amount denoms amount = Inr True"
  then have pos: "0 < amount"
    by (auto simp: is_valid_denomination_amount_def split: if_splits)
  with h obtain r where "mod_loop (sorted_reverse denoms) amount = Inr r"
    by (auto simp: is_valid_denomination_amount_def split: sum.splits)
  then have "0 \<notin> set (sorted_reverse denoms)"
    using mod_loop_error [of "sorted_reverse denoms" amount ZeroDivisionError] by auto
  with pos show ?thesis by (simp add: set_sorted_reverse)
qed

subsection \<open>The validator is the modulo chain\<close>

text \<open>
  Claim C1.  For a list of positive denominations and any integer amount, the validator
  answers false when the amount is at most 0; for a positive amount it answers true
  exactly when folding \<open>remaining mod denom\<close> over the denominations in descending
  order, starting from the amount, ends in 0.  The list folded over holds the same
  denominations as the one given and is sorted from largest to smallest.  With the
  denominations 1, 2, 5, 10 the amount 18 is valid, and 0 and -5 are not.
\<close>

theorem is_valid_denomination_amount_mod_chain:
  assumes "\<forall>d\<in>set denoms. 0 < d"
  shows "(amount \<le> 0 \<longrightarrow> is_valid_denomination_amount denoms amount = Inr False) \<and>
         (0 < amount \<longrightarrow>
            is_valid_denomination_amount denoms amount =
              Inr (foldl (\<lambda>remaining denom. remaining mod denom) amount
                     (sorted_reverse denoms) = 0)) \<and>
         sorted_wrt (\<ge>) (sorted_reverse denoms) \<and>
         set (sorted_reverse denoms) = set denoms \<and>
         length (sorted_reverse denoms) = length denoms \<and>
         is_valid_denomination_amount [1, 2, 5, 10] 18 = Inr True \<and>
         is_valid_denomination_amount [1, 2, 5, 10] 0 = Inr False \<and>
         is_valid_denomination_amount [1, 2, 5, 10] (- 5) = Inr False"
proof -
  from assms have nz: "0 \<notin> set denoms" by auto
  note gen = is_valid_no_zero [OF nz, of amount]
  have le: "amount \<le> 0 \<longrightarrow> is_valid_denomination_amount denoms amount = Inr False"
    using gen by simp
  have gt: "0 < amount \<longrightarrow>
            is_valid_denomination_amount denoms amount =
              Inr (foldl (\<lambda>remaining denom. remaining mod denom) amount
                     (sorted_reverse denoms) = 0)"
    using gen by simp
  have len: "length (sorted_reverse denoms) = length denoms"
    by (simp add: sorted_reverse_def)
  have e1: "is_valid_denomination_amount [1, 2, 5, 10] 18 = Inr True"
    by (simp add: is_valid_denomination_amount_def sorted_reverse_def)
  have e2: "is_valid_denomination_amount [1, 2, 5, 10] 0 = Inr False"
    by (simp add: is_valid_denomination_amount_def)
  have e3: "is_valid_denomination_amount [1, 2, 5, 10] (- 5) = Inr False"
    by (simp add: is_valid_denomination_amount_def)
  from le gt sorted_reverse_descending [of denoms] set_sorted_reverse [of denoms] len e1 e2 e3
  show ?thesis by (intro conjI)
qed

text \<open>
  The order matters: with the denominations given as 2, 5 the chain runs over 5, 2 and
  accepts 7, while the same chain over 2, 5 would leave 1.
\<close>

theorem is_valid_denomination_amount_mod_chain_witness:
  "list_all (\<lambda>d. 0 < d) [2, 5 :: int] \<and>
   sorted_reverse [2, 5] = [5, 2] \<and>
   is_valid_denomination_amount [2, 5] 7 = Inr True \<and>
   foldl (\<lambda>remaining denom. remaining mod denom) 7 [5, 2 :: int] = 0 \<and>
   foldl (\<lambda>remaining denom. remaining mod denom) 7 [2, 5 :: int] = 1 \<and>
   is_valid_denomination_amount [2, 5] 8 = Inr False \<and>
   is_valid_denomination_amount [2, 5] 0 = Inr False"
proof -
  have p: "\<forall>d\<in>set [2, 5 :: int]. 0 < d" by simp
  have s: "sorted_reverse [2, 5] = [5, 2]"
    using is_valid_denomination_amount_mod_chain [OF p, of 7]
    by (simp add: sorted_reverse_def)
  show ?thesis
    using is_valid_denomination_amount_mod_chain [OF p, of 7]
      is_valid_denomination_amount_mod_chain [OF p, of 8]
      is_valid_denomination_amount_mod_chain [OF p, of 0] s
    by simp
qed

subsection \<open>Change breakdown of a non-positive amount\<close>

text \<open>
  Claim C10.  For every amount at most 0 and every denomination list, also one that
  holds a zero, \<open>change_breakdown\<close> raises nothing and returns the amount with an empty
  mapping: the loop leaves at its first test, before any division.
\<close>

theorem change_breakdown_nonpositive:
  "change \<le> 0 \<Longrightarrow>
     change_breakdown denoms change =
       Inr [(''change'', PyInt change), (''denominations'', PyDict [])]"
  by (cases "sorted_reverse denoms") (simp_all add: change_breakdown_def)

theorem change_breakdown_nonpositive_witness:
  "(- 7 :: int) \<le> 0 \<and>
   change_breakdown [10, 0, 5] (- 7) =
     Inr [(''change'', PyInt (- 7)), (''denominations'', PyDict [])]"
  using change_breakdown_nonpositive [of "- 7" "[10, 0, 5]"] by simp

subsection \<open>Facts about the purchase checks\<close>

lemma can_make_change_no_zero:
  "0 \<notin> set denoms \<Longrightarrow>
     can_make_change denoms change =
       Inr (change \<le> 0 \<or> is_valid_denomination_amount denoms change = Inr True)"
  by (simp add: can_make_change_def is_valid_no_zero)


subsection \<open>When change cannot be made\<close>

text \<open>
  Claim C2, as amended.  For a purchase that passes the first three checks (the cash is a
  valid denomination amount, the item exists with a positive quantity, and the cash
  covers the price), \<^verbatim>\<open>cannot_make_change\<close> is raised exactly when the change is positive
  and fails the validator, that is exactly when \<open>can_make_change\<close> answers false.  A
  change of 0 is accepted although the validator rejects the amount 0.
\<close>

theorem cannot_make_change_iff_positive_invalid_change:
  assumes "is_valid_denomination_amount denoms cash_inserted = Inr True"
    and "items db item_id = Some item"
    and "0 < quantity item"
    and "price item \<le> cash_inserted"
  shows "(fst (purchase denoms db item_id cash_inserted) = Inl (ValueError ''cannot_make_change'' [])
           \<longleftrightarrow> 0 < cash_inserted - price item \<and>
               is_valid_denomination_amount denoms (cash_inserted - price item) = Inr False) \<and>
         (fst (purchase denoms db item_id cash_inserted) = Inl (ValueError ''cannot_make_change'' [])
           \<longleftrightarrow> can_make_change denoms (cash_inserted - price item) = Inr False)"
proof -
  from assms(1) have nz: "0 \<notin> set denoms"
    by (simp add: is_valid_True_no_zero)
  show ?thesis
    using assms is_valid_no_zero [OF nz, of "cash_inserted - price item"]
    by (auto simp: purchase_def can_make_change_def Let_def split: sum.splits)
qed

theorem cannot_make_change_iff_positive_invalid_change_witness:
  "is_valid_denomination_amount [5, 10] 15 = Inr True \<and>
   items demo_db ''gum'' = Some \<lparr>name = ''Gum'', price = 12, quantity = 3, slot_id = None\<rparr> \<and>
   is_valid_denomination_amount [5, 10] (15 - 12) = Inr False \<and>
   fst (purchase [5, 10] demo_db ''gum'' 15) = Inl (ValueError ''cannot_make_change'' [])"
proof -
  have v: "is_valid_denomination_amount [5, 10] 15 = Inr True"
    by (simp add: is_valid_denomination_amount_def sorted_reverse_def)
  have i: "items demo_db ''gum'' = Some \<lparr>name = ''Gum'', price = 12, quantity = 3, slot_id = None\<rparr>"
    by (simp add: demo_db_def)
  have f: "is_valid_denomination_amount [5, 10] (15 - 12) = Inr False"
    by (simp add: is_valid_denomination_amount_def sorted_reverse_def)
  show ?thesis
    using cannot_make_change_iff_positive_invalid_change [OF v i] v i f by simp
qed

text \<open>
  The claim as first stated, with the validator alone deciding, fails for an exact
  payment: with denominations 1, 2, 5, 10, a price of 10 and 10 inserted, the first three
  checks pass and the validator rejects the change 0, yet the purchase succeeds.
\<close>

theorem cannot_make_change_iff_invalid_change_counterexample:
  "is_valid_denomination_amount [1, 2, 5, 10] 10 = Inr True \<and>
   items demo_db ''cola'' =
     Some \<lparr>name = ''Cola'', price = 10, quantity = 1, slot_id = Some ''A1''\<rparr> \<and>
   is_valid_denomination_amount [1, 2, 5, 10] (10 - 10) = Inr False \<and>
   fst (purchase [1, 2, 5, 10] demo_db ''cola'' 10) =
     Inr [(''item'', PyStr ''Cola''),
          (''price'', PyInt 10),
          (''cash_inserted'', PyInt 10),
          (''change_returned'', PyInt 0),
          (''remaining_quantity'', PyInt 0),
          (''message'', PyStr ''Purchase successful'')] \<and>
   \<not> (fst (purchase [1, 2, 5, 10] demo_db ''cola'' 10) = Inl (ValueError ''cannot_make_change'' [])
        \<longleftrightarrow> is_valid_denomination_amount [1, 2, 5, 10] (10 - 10) = Inr False)"
  by (simp add: purchase_def is_valid_denomination_amount_def can_make_change_def
      sorted_reverse_def demo_db_def slot_def)

subsection \<open>Order of the checks\<close>

text \<open>
  Claim C6.  With positive denominations neither validator call raises, and the failures
  of \<open>purchase\<close> are the five \<^verbatim>\<open>ValueError\<close>s, tested in this order: invalid cash
  gives \<^verbatim>\<open>invalid_denomination\<close> whatever the item; then a missing item gives
  \<^verbatim>\<open>item_not_found\<close>; then a quantity of at most 0 gives \<^verbatim>\<open>out_of_stock\<close> whatever the
  price; then cash below the price gives \<^verbatim>\<open>insufficient_cash\<close> carrying the price and
  the cash; then change that cannot be made gives \<^verbatim>\<open>cannot_make_change\<close>; otherwise the
  purchase succeeds.  The five names are pairwise different.
\<close>

theorem purchase_error_precedence:
  assumes "\<forall>d\<in>set denoms. 0 < d"
  shows
    "(is_valid_denomination_amount denoms cash_inserted = Inr False \<longrightarrow>
        fst (purchase denoms db item_id cash_inserted) = Inl (ValueError ''invalid_denomination'' [])) \<and>
     (is_valid_denomination_amount denoms cash_inserted = Inr True \<and> items db item_id = None \<longrightarrow>
        fst (purchase denoms db item_id cash_inserted) = Inl (ValueError ''item_not_found'' [])) \<and>
     (is_valid_denomination_amount denoms cash_inserted = Inr True \<and> items db item_id = Some item \<and>
      quantity item \<le> 0 \<longrightarrow>
        fst (purchase denoms db item_id cash_inserted) = Inl (ValueError ''out_of_stock'' [])) \<and>
     (is_valid_denomination_amount denoms cash_inserted = Inr True \<and> items db item_id = Some item \<and>
      0 < quantity item \<and> cash_inserted < price item \<longrightarrow>
        fst (purchase denoms db item_id cash_inserted) =
          Inl (ValueError ''insufficient_cash'' [price item, cash_inserted])) \<and>
     (is_valid_denomination_amount denoms cash_inserted = Inr True \<and> items db item_id = Some item \<and>
      0 < quantity item \<and> price item \<le> cash_inserted \<and>
      can_make_change denoms (cash_inserted - price item) = Inr False \<longrightarrow>
        fst (purchase denoms db item_id cash_inserted) = Inl (ValueError ''cannot_make_change'' [])) \<and>
     (is_valid_denomination_amount denoms cash_inserted = Inr True \<and> items db item_id = Some item \<and>
      0 < quantity item \<and> price item \<le> cash_inserted \<and>
      can_make_change denoms (cash_inserted - price item) = Inr True \<longrightarrow>
        (\<exists>outcome. fst (purchase denoms db item_id cash_inserted) = Inr outcome)) \<and>
     (\<exists>valid. is_valid_denomination_amount denoms cash_inserted = Inr valid) \<and>
     (\<exists>ok. can_make_change denoms (cash_inserted - price item) = Inr ok) \<and>
     distinct [''invalid_denomination'', ''item_not_found'', ''out_of_stock'',
               ''insufficient_cash'', ''cannot_make_change'']"
proof -
  from assms have nz: "0 \<notin> set denoms" by auto
  have a: "\<exists>valid. is_valid_denomination_amount denoms cash_inserted = Inr valid"
    by (simp add: is_valid_no_zero [OF nz])
  have b: "\<exists>ok. can_make_change denoms (cash_inserted - price item) = Inr ok"
    by (simp add: can_make_change_no_zero [OF nz])
  have c: "distinct [''invalid_denomination'', ''item_not_found'', ''out_of_stock'',
               ''insufficient_cash'', ''cannot_make_change'']"
    by simp
  show ?thesis
    using a b c by (simp add: purchase_def Let_def)
qed

theorem purchase_error_precedence_witness:
  "list_all (\<lambda>d. 0 < d) [5, 10 :: int] \<and>
   fst (purchase [5, 10] demo_db ''cola'' 3) = Inl (ValueError ''invalid_denomination'' []) \<and>
   fst (purchase [5, 10] demo_db ''tea'' 5) = Inl (ValueError ''item_not_found'' []) \<and>
   fst (purchase [5, 10] demo_db ''chips'' 5) = Inl (ValueError ''out_of_stock'' []) \<and>
   fst (purchase [5, 10] demo_db ''cola'' 5) = Inl (ValueError ''insufficient_cash'' [10, 5]) \<and>
   fst (purchase [5, 10] demo_db ''gum'' 15) = Inl (ValueError ''cannot_make_change'' [])"
proof -
  have p: "\<forall>d\<in>set [5, 10 :: int]. 0 < d" by simp
  have v3: "is_valid_denomination_amount [5, 10] 3 = Inr False"
    and v5: "is_valid_denomination_amount [5, 10] 5 = Inr True"
    and v15: "is_valid_denomination_amount [5, 10] 15 = Inr True"
    and c3: "can_make_change [5, 10] (15 - 12) = Inr False"
    by (simp_all add: is_valid_denomination_amount_def can_make_change_def sorted_reverse_def)
  have i: "items demo_db ''tea'' = None"
    "items demo_db ''chips'' = Some \<lparr>name = ''Chips'', price = 12, quantity = 0, slot_id = Some ''A1''\<rparr>"
    "items demo_db ''cola'' = Some \<lparr>name = ''Cola'', price = 10, quantity = 1, slot_id = Some ''A1''\<rparr>"
    "items demo_db ''gum'' = Some \<lparr>name = ''Gum'', price = 12, quantity = 3, slot_id = None\<rparr>"
    by (simp_all add: demo_db_def)
  show ?thesis
    using purchase_error_precedence [OF p, of 3 demo_db "''cola''"]
      purchase_error_precedence [OF p, of 5 demo_db "''tea''"]
      purchase_error_precedence [OF p, of 5 demo_db "''chips''" "\<lparr>name = ''Chips'', price = 12, quantity = 0, slot_id = Some ''A1''\<rparr>"]
      purchase_error_precedence [OF p, of 5 demo_db "''cola''" "\<lparr>name = ''Cola'', price = 10, quantity = 1, slot_id = Some ''A1''\<rparr>"]
      purchase_error_precedence [OF p, of 15 demo_db "''gum''" "\<lparr>name = ''Gum'', price = 12, quantity = 3, slot_id = None\<rparr>"]
      v3 v5 v15 c3 i
    by simp
qed

subsection \<open>Failure leaves the session untouched\<close>




subsection \<open>Effect of a successful purchase\<close>

text \<open>
  Claim C8.  A successful purchase decrements the item's quantity by exactly 1 and, when
  a slot is linked, that slot's current item count by exactly 1, and changes nothing
  else; the returned dictionary holds the item's name, the price, the cash inserted, the
  change \<open>cash_inserted - price\<close>, the quantity after the decrement and the message
  \<^verbatim>\<open>Purchase successful\<close>.  A price of 10, quantity 1 and 15 inserted give change 5 and
  remaining quantity 0.
\<close>

theorem purchase_success_effect:
  assumes "purchase denoms db item_id cash_inserted = (Inr outcome, db')"
  shows "(\<exists>item.
           items db item_id = Some item \<and>
           items db' = (items db)(item_id \<mapsto> item\<lparr>quantity := quantity item - 1\<rparr>) \<and>
           slots db' =
             (case slot db item of
                None \<Rightarrow> slots db
              | Some (sid, s) \<Rightarrow>
                  (slots db)(sid \<mapsto> s\<lparr>current_item_count := current_item_count s - 1\<rparr>)) \<and>
           outcome =
             [(''item'', PyStr (name item)),
              (''price'', PyInt (price item)),
              (''cash_inserted'', PyInt cash_inserted),
              (''change_returned'', PyInt (cash_inserted - price item)),
              (''remaining_quantity'', PyInt (quantity item - 1)),
              (''message'', PyStr ''Purchase successful'')]) \<and>
         fst (purchase [1, 2, 5, 10] demo_db ''cola'' 15) =
           Inr [(''item'', PyStr ''Cola''),
                (''price'', PyInt 10),
                (''cash_inserted'', PyInt 15),
                (''change_returned'', PyInt 5),
                (''remaining_quantity'', PyInt 0),
                (''message'', PyStr ''Purchase successful'')]"
proof -
  have ex: "fst (purchase [1, 2, 5, 10] demo_db ''cola'' 15) =
           Inr [(''item'', PyStr ''Cola''),
                (''price'', PyInt 10),
                (''cash_inserted'', PyInt 15),
                (''change_returned'', PyInt 5),
                (''remaining_quantity'', PyInt 0),
                (''message'', PyStr ''Purchase successful'')]"
    by (simp add: purchase_def is_valid_denomination_amount_def can_make_change_def
        sorted_reverse_def demo_db_def slot_def)
  have gen: "\<exists>item.
           items db item_id = Some item \<and>
           items db' = (items db)(item_id \<mapsto> item\<lparr>quantity := quantity item - 1\<rparr>) \<and>
           slots db' =
             (case slot db item of
                None \<Rightarrow> slots db
              | Some (sid, s) \<Rightarrow>
                  (slots db)(sid \<mapsto> s\<lparr>current_item_count := current_item_count s - 1\<rparr>)) \<and>
           outcome =
             [(''item'', PyStr (name item)),
              (''price'', PyInt (price item)),
              (''cash_inserted'', PyInt cash_inserted),
              (''change_returned'', PyInt (cash_inserted - price item)),
              (''remaining_quantity'', PyInt (quantity item - 1)),
              (''message'', PyStr ''Purchase successful'')]"
    using assms
    by (auto simp: purchase_def Let_def slot_def split: sum.splits option.splits if_splits)
  from gen ex show ?thesis by (intro conjI)
qed

theorem purchase_success_effect_witness:
  "purchase [1, 2, 5, 10] demo_db ''cola'' 15 =
     (Inr [(''item'', PyStr ''Cola''),
           (''price'', PyInt 10),
           (''cash_inserted'', PyInt 15),
           (''change_returned'', PyInt 5),
           (''remaining_quantity'', PyInt 0),
           (''message'', PyStr ''Purchase successful'')],
      demo_db\<lparr>items := (items demo_db)(''cola'' \<mapsto>
                 \<lparr>name = ''Cola'', price = 10, quantity = 0, slot_id = Some ''A1''\<rparr>),
              slots := (slots demo_db)(''A1'' \<mapsto> \<lparr>current_item_count = 0\<rparr>)\<rparr>) \<and>
   items (snd (purchase [1, 2, 5, 10] demo_db ''cola'' 15)) ''cola'' =
     Some \<lparr>name = ''Cola'', price = 10, quantity = 1 - 1, slot_id = Some ''A1''\<rparr> \<and>
   slots (snd (purchase [1, 2, 5, 10] demo_db ''cola'' 15)) ''A1'' =
     Some \<lparr>current_item_count = 1 - 1\<rparr>"
proof -
  have p: "purchase [1, 2, 5, 10] demo_db ''cola'' 15 =
     (Inr [(''item'', PyStr ''Cola''),
           (''price'', PyInt 10),
           (''cash_inserted'', PyInt 15),
           (''change_returned'', PyInt 5),
           (''remaining_quantity'', PyInt 0),
           (''message'', PyStr ''Purchase successful'')],
      demo_db\<lparr>items := (items demo_db)(''cola'' \<mapsto>
                 \<lparr>name = ''Cola'', price = 10, quantity = 0, slot_id = Some ''A1''\<rparr>),
              slots := (slots demo_db)(''A1'' \<mapsto> \<lparr>current_item_count = 0\<rparr>)\<rparr>)"
    by (simp add: purchase_def is_valid_denomination_amount_def can_make_change_def
        sorted_reverse_def demo_db_def slot_def)
  show ?thesis
    using purchase_success_effect [OF p] p by (simp add: demo_db_def slot_def)
qed

subsection \<open>Exact payment\<close>

text \<open>
  Claim C9.  \<open>can_make_change\<close> answers true for every change of at most 0, although the
  validator rejects the amount 0; so a purchase paying exactly the price never raises
  \<^verbatim>\<open>cannot_make_change\<close>, and succeeds with change 0 when the other checks pass.
\<close>

theorem exact_payment_accepted:
  "(change \<le> 0 \<longrightarrow> can_make_change denoms change = Inr True) \<and>
   is_valid_denomination_amount denoms 0 = Inr False \<and>
   (items db item_id = Some item \<and> price item = cash_inserted \<longrightarrow>
      fst (purchase denoms db item_id cash_inserted) \<noteq> Inl (ValueError ''cannot_make_change'' [])) \<and>
   (is_valid_denomination_amount denoms cash_inserted = Inr True \<and>
    items db item_id = Some item \<and> 0 < quantity item \<and> price item = cash_inserted \<longrightarrow>
      (\<exists>outcome. fst (purchase denoms db item_id cash_inserted) = Inr outcome \<and>
                 map_of outcome ''change_returned'' = Some (PyInt 0)))"
  by (auto simp: purchase_def can_make_change_def is_valid_denomination_amount_def Let_def
      mod_loop_error split: sum.splits)

theorem exact_payment_accepted_witness:
  "(0 :: int) \<le> 0 \<and> can_make_change [5, 10] 0 = Inr True \<and>
   is_valid_denomination_amount [5, 10] 0 = Inr False \<and>
   items demo_db ''cola'' = Some \<lparr>name = ''Cola'', price = 10, quantity = 1, slot_id = Some ''A1''\<rparr> \<and>
   is_valid_denomination_amount [5, 10] 10 = Inr True \<and>
   fst (purchase [5, 10] demo_db ''cola'' 10) \<noteq> Inl (ValueError ''cannot_make_change'' []) \<and>
   (\<exists>outcome. fst (purchase [5, 10] demo_db ''cola'' 10) = Inr outcome \<and>
              map_of outcome ''change_returned'' = Some (PyInt 0))"
proof -
  have i: "items demo_db ''cola'' =
      Some \<lparr>name = ''Cola'', price = 10, quantity = 1, slot_id = Some ''A1''\<rparr>"
    by (simp add: demo_db_def)
  have v: "is_valid_denomination_amount [5, 10] 10 = Inr True"
    by (simp add: is_valid_denomination_amount_def sorted_reverse_def)
  show ?thesis
    using exact_payment_accepted [of 0 "[5, 10]" demo_db "''cola''"
        "\<lparr>name = ''Cola'', price = 10, quantity = 1, slot_id = Some ''A1''\<rparr>" 10] i v
    by simp
qed

subsection \<open>Decimal strings can be read back\<close>

lemma digit_cases: "n < 10 \<Longrightarrow> n \<in> {0, 1, 2, 3, 4, 5, 6, 7, 8, 9 :: nat}"
  by auto

lemma digit_val_digit_char: "n < 10 \<Longrightarrow> digit_val (digit_char n) = n"
  using digit_cases [of n] by (auto simp: digit_val_def digit_char_def)

lemma digit_char_not_minus: "n < 10 \<Longrightarrow> digit_char n \<noteq> CHR ''-''"
  using digit_cases [of n] by (auto simp: digit_char_def)

lemma nat_of_str_snoc: "nat_of_str (s @ [c]) = 10 * nat_of_str s + digit_val c"
  by (simp add: nat_of_str_def)

lemma nat_of_str_str_nat: "nat_of_str (str_nat n) = n"
proof (induction n rule: str_nat.induct)
  case (1 n)
  show ?case
  proof (cases "n < 10")
    case True
    then show ?thesis
      by (simp add: str_nat.simps [of n] nat_of_str_def digit_val_digit_char)
  next
    case False
    with 1 have "nat_of_str (str_nat (n div 10)) = n div 10" by simp
    with False show ?thesis
      by (simp add: str_nat.simps [of n] nat_of_str_snoc digit_val_digit_char)
  qed
qed

lemma str_nat_head: "str_nat n \<noteq> [] \<and> hd (str_nat n) \<noteq> CHR ''-''"
proof (induction n rule: str_nat.induct)
  case (1 n)
  show ?case
  proof (cases "n < 10")
    case True
    then show ?thesis
      by (simp add: str_nat.simps [of n] digit_char_not_minus)
  next
    case False
    with 1 have "str_nat (n div 10) \<noteq> [] \<and> hd (str_nat (n div 10)) \<noteq> CHR ''-''" by simp
    with False show ?thesis
      by (simp add: str_nat.simps [of n])
  qed
qed

lemma int_of_str_str: "int_of_str (str i) = i"
proof (cases "i < 0")
  case True
  then have "str i = CHR ''-'' # str_nat (nat (- i))" by (simp add: str_def)
  then have "int_of_str (str i) = - int (nat_of_str (str_nat (nat (- i))))"
    by (simp add: int_of_str_def)
  also have "\<dots> = - int (nat (- i))" by (simp only: nat_of_str_str_nat)
  also from True have "\<dots> = i" by simp
  finally show ?thesis .
next
  case False
  then have s: "str i = str_nat (nat i)" by (simp add: str_def)
  have "\<not> (str_nat (nat i) \<noteq> [] \<and> hd (str_nat (nat i)) = CHR ''-'')"
    using str_nat_head [of "nat i"] by blast
  then have "int_of_str (str_nat (nat i)) = int (nat_of_str (str_nat (nat i)))"
    unfolding int_of_str_def by (rule if_not_P)
  also have "\<dots> = int (nat i)" by (simp only: nat_of_str_str_nat)
  also from False have "\<dots> = i" by simp
  finally show ?thesis by (simp only: s)
qed

lemma str_inject: "str i = str j \<Longrightarrow> i = j"
proof -
  assume "str i = str j"
  then have "int_of_str (str i) = int_of_str (str j)" by (rule arg_cong)
  then show "i = j" by (simp only: int_of_str_str)
qed

lemma update_fresh: "k \<notin> fst ` set al \<Longrightarrow> AList.update k v al = al @ [(k, v)]"
  by (induction al) auto

subsection \<open>The loop of the change calculator computes the greedy decomposition\<close>

lemma spec_greedy_zero: "spec_greedy xs 0 = []"
  by (cases xs) simp_all

lemma breakdown_loop_zero: "breakdown_loop xs acc 0 = Inr (acc, 0)"
  by (cases xs) simp_all

lemma breakdown_loop_refines:
  assumes "\<forall>d\<in>set xs. 0 < d" and "0 \<le> r"
    and "\<forall>k\<in>fst ` set acc. \<exists>j. k = str j \<and> r < j"
  shows "breakdown_loop xs acc r =
           Inr (acc @ keyed (spec_greedy xs r), r - pairs_total (spec_greedy xs r))"
  using assms
proof (induction xs arbitrary: acc r)
  case Nil
  then show ?case by (simp add: keyed_def pairs_total_def)
next
  case (Cons d rest)
  from Cons.prems have dpos: "0 < d" and rest: "\<forall>d\<in>set rest. 0 < d" by simp_all
  show ?case
  proof (cases "r = 0")
    case True
    then show ?thesis by (simp add: keyed_def pairs_total_def)
  next
    case False
    with Cons.prems have rpos: "0 < r" by simp
    show ?thesis
    proof (cases "0 < r div d")
      case True
      with dpos rpos have dle: "d \<le> r"
        by (simp add: pos_imp_zdiv_pos_iff)
      have fresh: "str d \<notin> fst ` set acc"
      proof
        assume "str d \<in> fst ` set acc"
        with Cons.prems(3) obtain j where "str d = str j" and "r < j" by blast
        with dle show False by (auto dest: str_inject)
      qed
      let ?r' = "r - r div d * d"
      have r': "?r' = r mod d" by (simp add: minus_div_mult_eq_mod)
      with dpos have bounds: "0 \<le> ?r'" "?r' < d" by simp_all
      have inv: "\<forall>k\<in>fst ` set (acc @ [(str d, r div d)]). \<exists>j. k = str j \<and> ?r' < j"
      proof
        fix k assume "k \<in> fst ` set (acc @ [(str d, r div d)])"
        then consider "k \<in> fst ` set acc" | "k = str d" by auto
        then show "\<exists>j. k = str j \<and> ?r' < j"
        proof cases
          case 1
          with Cons.prems(3) obtain j where "k = str j" "r < j" by blast
          moreover from bounds dle have "?r' \<le> r" by linarith
          ultimately show ?thesis by force
        next
          case 2
          with bounds show ?thesis by blast
        qed
      qed
      have "breakdown_loop (d # rest) acc r =
              breakdown_loop rest (acc @ [(str d, r div d)]) ?r'"
        using True rpos dpos fresh by (simp add: update_fresh Let_def)
      also have "\<dots> = Inr ((acc @ [(str d, r div d)]) @ keyed (spec_greedy rest ?r'),
                         ?r' - pairs_total (spec_greedy rest ?r'))"
        by (rule Cons.IH [OF rest bounds(1) inv])
      also have "\<dots> = Inr (acc @ keyed (spec_greedy (d # rest) r),
                         r - pairs_total (spec_greedy (d # rest) r))"
        using True False by (simp add: keyed_def pairs_total_def Let_def algebra_simps)
      finally show ?thesis .
    next
      case zero: False
      have "breakdown_loop (d # rest) acc r = breakdown_loop rest acc r"
        using zero rpos dpos by (simp add: Let_def)
      also have "\<dots> = Inr (acc @ keyed (spec_greedy rest r), r - pairs_total (spec_greedy rest r))"
        by (rule Cons.IH [OF rest Cons.prems(2) Cons.prems(3)])
      also have "\<dots> = Inr (acc @ keyed (spec_greedy (d # rest) r),
                         r - pairs_total (spec_greedy (d # rest) r))"
      proof -
        from zero dpos rpos have "r div d = 0"
          by (smt (verit) pos_imp_zdiv_nonneg_iff)
        with False show ?thesis by (simp add: Let_def)
      qed
      finally show ?thesis .
    qed
  qed
qed


lemma spec_greedy_pairs:
  assumes "\<forall>d\<in>set xs. 0 < d" and "0 \<le> r" and "(d, c) \<in> set (spec_greedy xs r)"
  shows "0 < c \<and> d \<in> set xs \<and> d \<le> r"
  using assms
proof (induction xs arbitrary: r)
  case Nil
  then show ?case by simp
next
  case (Cons x rest)
  from Cons.prems have xpos: "0 < x" and rest: "\<forall>d\<in>set rest. 0 < d" by simp_all
  from Cons.prems have rne: "r \<noteq> 0" by (auto split: if_splits)
  with Cons.prems have rpos: "0 < r" by simp
  let ?r' = "r - r div x * x"
  have r': "?r' = r mod x" by (simp add: minus_div_mult_eq_mod)
  with xpos have lo: "0 \<le> ?r'" by simp
  from r' xpos rpos have hi: "?r' \<le> r"
    by (simp add: zmod_le_nonneg_dividend)
  from Cons.prems(3) rne
  consider "0 < r div x" "(d, c) = (x, r div x)" | "(d, c) \<in> set (spec_greedy rest ?r')"
    by (auto simp: Let_def split: if_splits)
  then show ?case
  proof cases
    case 1
    with xpos rpos show ?thesis by (simp add: pos_imp_zdiv_pos_iff)
  next
    case 2
    from Cons.IH [OF rest lo 2] hi show ?thesis by simp
  qed
qed

lemma spec_greedy_descending:
  assumes "\<forall>d\<in>set xs. 0 < d" and "0 \<le> r"
  shows "sorted_wrt (>) (map fst (spec_greedy xs r))"
  using assms
proof (induction xs arbitrary: r)
  case Nil
  then show ?case by simp
next
  case (Cons x rest)
  from Cons.prems have xpos: "0 < x" and rest: "\<forall>d\<in>set rest. 0 < d" by simp_all
  let ?r' = "r - r div x * x"
  have r': "?r' = r mod x" by (simp add: minus_div_mult_eq_mod)
  with xpos have lo: "0 \<le> ?r'" and hi: "?r' < x" by simp_all
  have below: "\<forall>p\<in>set (spec_greedy rest ?r'). fst p < x"
  proof
    fix p assume "p \<in> set (spec_greedy rest ?r')"
    then have "(fst p, snd p) \<in> set (spec_greedy rest ?r')" by simp
    from spec_greedy_pairs [OF rest lo this] hi show "fst p < x" by simp
  qed
  from Cons.IH [OF rest lo] below show ?case
    by (simp add: Let_def)
qed

lemma total_keyed: "(\<Sum>(k, c)\<leftarrow>keyed pairs. int_of_str k * c) = pairs_total pairs"
  by (induction pairs) (auto simp: keyed_def pairs_total_def int_of_str_str)

lemma spec_greedy_total:
  assumes "\<forall>d\<in>set xs. 0 < d" and "0 \<le> r"
  shows "0 \<le> r - pairs_total (spec_greedy xs r)"
  using assms
proof (induction xs arbitrary: r)
  case Nil
  then show ?case by (simp add: pairs_total_def)
next
  case (Cons x rest)
  from Cons.prems have xpos: "0 < x" and rest: "\<forall>d\<in>set rest. 0 < d" by simp_all
  let ?r' = "r - r div x * x"
  have r': "?r' = r mod x" by (simp add: minus_div_mult_eq_mod)
  with xpos have lo: "0 \<le> ?r'" by simp
  from xpos Cons.prems(2) have q: "0 \<le> r div x"
    by (simp add: pos_imp_zdiv_nonneg_iff)
  show ?case
  proof (cases "0 < r div x")
    case True
    with Cons.IH [OF rest lo] show ?thesis
      by (simp add: Let_def pairs_total_def algebra_simps)
  next
    case False
    with q have "r div x = 0" by simp
    with Cons.IH [OF rest lo] Cons.prems(2) show ?thesis
      by (simp add: Let_def pairs_total_def)
  qed
qed

lemma breakdown_loop_sorted_greedy:
  assumes "\<forall>d\<in>set denoms. 0 < d" and "0 \<le> change"
  shows "breakdown_loop (sorted_reverse denoms) [] change =
           Inr (keyed (spec_greedy (sorted_reverse denoms) change),
                change - pairs_total (spec_greedy (sorted_reverse denoms) change))"
  using breakdown_loop_refines [of "sorted_reverse denoms" change "[]"] assms
  by (simp add: set_sorted_reverse)

text \<open>
  Claim C4.  For positive denominations and an amount of at least 0, \<open>change_breakdown\<close>
  returns the original amount together with the dictionary of the greedy decomposition
  over the denominations sorted from largest to smallest: at each step the count is
  \<open>remaining div denom\<close>, recorded only when positive, and \<open>count * denom\<close> is subtracted,
  until the remaining amount is 0.  Every recorded count is positive, every key is a
  denomination, and the keys appear in strictly descending order of denomination.  For
  18 with the denominations 10, 5, 2, 1 the dictionary is 10: 1, 5: 1, 2: 1, 1: 1.
\<close>

theorem change_breakdown_greedy_spec:
  assumes "\<forall>d\<in>set denoms. 0 < d" and "0 \<le> change"
  shows "change_breakdown denoms change =
           Inr [(''change'', PyInt change),
                (''denominations'', PyDict (keyed (spec_greedy (sorted_reverse denoms) change)))] \<and>
         sorted_wrt (\<ge>) (sorted_reverse denoms) \<and>
         set (sorted_reverse denoms) = set denoms \<and>
         (\<forall>(d, c)\<in>set (spec_greedy (sorted_reverse denoms) change). 0 < c \<and> d \<in> set denoms) \<and>
         sorted_wrt (>) (map fst (spec_greedy (sorted_reverse denoms) change)) \<and>
         change_breakdown [10, 5, 2, 1] 18 =
           Inr [(''change'', PyInt 18),
                (''denominations'', PyDict [(''10'', 1), (''5'', 1), (''2'', 1), (''1'', 1)])]"
proof -
  have sr: "\<forall>d\<in>set (sorted_reverse denoms). 0 < d"
    using assms(1) by (simp add: set_sorted_reverse)
  have a: "change_breakdown denoms change =
           Inr [(''change'', PyInt change),
                (''denominations'', PyDict (keyed (spec_greedy (sorted_reverse denoms) change)))]"
    by (simp add: change_breakdown_def breakdown_loop_sorted_greedy [OF assms])
  have b: "\<forall>(d, c)\<in>set (spec_greedy (sorted_reverse denoms) change). 0 < c \<and> d \<in> set denoms"
    using spec_greedy_pairs [OF sr assms(2)] by (auto simp: set_sorted_reverse)
  have c: "sorted_wrt (>) (map fst (spec_greedy (sorted_reverse denoms) change))"
    by (rule spec_greedy_descending [OF sr assms(2)])
  have e: "change_breakdown [10, 5, 2, 1] 18 =
           Inr [(''change'', PyInt 18),
                (''denominations'', PyDict [(''10'', 1), (''5'', 1), (''2'', 1), (''1'', 1)])]"
    by code_simp
  from a sorted_reverse_descending [of denoms] set_sorted_reverse [of denoms] b c e
  show ?thesis by (intro conjI)
qed

theorem change_breakdown_greedy_spec_witness:
  "list_all (\<lambda>d. 0 < d) [1, 10, 5 :: int] \<and> (0 :: int) \<le> 27 \<and>
   spec_greedy (sorted_reverse [1, 10, 5]) 27 = [(10, 2), (5, 1), (1, 2)] \<and>
   change_breakdown [1, 10, 5] 27 =
     Inr [(''change'', PyInt 27),
          (''denominations'', PyDict [(''10'', 2), (''5'', 1), (''1'', 2)])]"
proof -
  have g: "spec_greedy (sorted_reverse [1, 10, 5]) 27 = [(10, 2), (5, 1), (1, 2)]"
    by code_simp
  have k: "keyed [(10, 2), (5, 1), (1, 2)] = [(''10'', 2), (''5'', 1), (''1'', 2)]"
    by code_simp
  show ?thesis
    using change_breakdown_greedy_spec [of "[1, 10, 5]" 27] g k by simp
qed

text \<open>
  Claim C5.  For positive denominations and an amount of at least 0, \<open>change_breakdown\<close>
  raises nothing; the counts it returns, each times its denomination, add up to the
  amount minus what the loop leaves in \<open>remaining\<close>, which is at least 0 and is not
  returned.  With the denominations 5 and 2 and the amount 8 the loop leaves 1, and the
  returned dictionary 5: 1, 2: 1 accounts for 7 only.
\<close>

theorem change_breakdown_drops_leftover:
  assumes "\<forall>d\<in>set denoms. 0 < d" and "0 \<le> change"
  shows "(\<exists>result leftover.
            breakdown_loop (sorted_reverse denoms) [] change = Inr (result, leftover) \<and>
            change_breakdown denoms change =
              Inr [(''change'', PyInt change), (''denominations'', PyDict result)] \<and>
            (\<Sum>(k, c)\<leftarrow>result. int_of_str k * c) = change - leftover \<and>
            0 \<le> leftover) \<and>
         breakdown_loop (sorted_reverse [5, 2]) [] 8 = Inr ([(''5'', 1), (''2'', 1)], 1) \<and>
         change_breakdown [5, 2] 8 =
           Inr [(''change'', PyInt 8), (''denominations'', PyDict [(''5'', 1), (''2'', 1)])]"
proof -
  let ?pairs = "spec_greedy (sorted_reverse denoms) change"
  have sr: "\<forall>d\<in>set (sorted_reverse denoms). 0 < d"
    using assms(1) by (simp add: set_sorted_reverse)
  have l: "breakdown_loop (sorted_reverse denoms) [] change =
             Inr (keyed ?pairs, change - pairs_total ?pairs)"
    by (rule breakdown_loop_sorted_greedy [OF assms])
  then have r: "change_breakdown denoms change =
             Inr [(''change'', PyInt change), (''denominations'', PyDict (keyed ?pairs))]"
    by (simp add: change_breakdown_def)
  have t: "(\<Sum>(k, c)\<leftarrow>keyed ?pairs. int_of_str k * c) = change - (change - pairs_total ?pairs)"
    by (simp add: total_keyed)
  have n: "0 \<le> change - pairs_total ?pairs"
    by (rule spec_greedy_total [OF sr assms(2)])
  from l r t n have gen: "\<exists>result leftover.
            breakdown_loop (sorted_reverse denoms) [] change = Inr (result, leftover) \<and>
            change_breakdown denoms change =
              Inr [(''change'', PyInt change), (''denominations'', PyDict result)] \<and>
            (\<Sum>(k, c)\<leftarrow>result. int_of_str k * c) = change - leftover \<and>
            0 \<le> leftover"
    by blast
  have e1: "breakdown_loop (sorted_reverse [5, 2]) [] 8 = Inr ([(''5'', 1), (''2'', 1)], 1)"
    by code_simp
  have e2: "change_breakdown [5, 2] 8 =
           Inr [(''change'', PyInt 8), (''denominations'', PyDict [(''5'', 1), (''2'', 1)])]"
    by code_simp
  from gen e1 e2 show ?thesis by (intro conjI)
qed

theorem change_breakdown_drops_leftover_witness:
  "list_all (\<lambda>d. 0 < d) [10, 4 :: int] \<and> (0 :: int) \<le> 27 \<and>
   (\<exists>result leftover.
      breakdown_loop (sorted_reverse [10, 4]) [] 27 = Inr (result, leftover) \<and>
      change_breakdown [10, 4] 27 =
        Inr [(''change'', PyInt 27), (''denominations'', PyDict result)] \<and>
      (\<Sum>(k, c)\<leftarrow>result. int_of_str k * c) = 27 - leftover \<and>
      0 \<le> leftover) \<and>
   breakdown_loop (sorted_reverse [10, 4]) [] 27 = Inr ([(''10'', 2), (''4'', 1)], 3)"
proof -
  have e: "breakdown_loop (sorted_reverse [10, 4]) [] 27 = Inr ([(''10'', 2), (''4'', 1)], 3)"
    by code_simp
  have "\<exists>result leftover.
      breakdown_loop (sorted_reverse [10, 4]) [] 27 = Inr (result, leftover) \<and>
      change_breakdown [10, 4] 27 =
        Inr [(''change'', PyInt 27), (''denominations'', PyDict result)] \<and>
      (\<Sum>(k, c)\<leftarrow>result. int_of_str k * c) = 27 - leftover \<and>
      0 \<le> leftover"
    using change_breakdown_drops_leftover [of "[10, 4]" 27] by simp
  with e show ?thesis by simp
qed

subsection \<open>Accepted amounts are sums of denominations\<close>

lemma representable_add_coins:
  "representable denoms n \<Longrightarrow> d \<in> set denoms \<Longrightarrow> representable denoms (n + int k * d)"
proof (induction k)
  case 0
  then show ?case by simp
next
  case (Suc k)
  then have "representable denoms ((n + int k * d) + d)"
    by (simp add: add_coin)
  then show ?case by (simp add: algebra_simps)
qed

lemma mod_loop_representable:
  assumes "mod_loop xs r = Inr 0" and "0 \<le> r"
    and "\<forall>d\<in>set xs. 0 < d \<and> d \<in> set denoms"
  shows "representable denoms r"
  using assms
proof (induction xs arbitrary: r)
  case Nil
  then show ?case by (simp add: empty_sum)
next
  case (Cons d rest)
  from Cons.prems have dpos: "0 < d" and dmem: "d \<in> set denoms"
    and rest: "\<forall>d\<in>set rest. 0 < d \<and> d \<in> set denoms" by simp_all
  from Cons.prems(1) dpos have loop: "mod_loop rest (r mod d) = Inr 0" by simp
  from dpos have "0 \<le> r mod d" by simp
  from Cons.IH [OF loop this rest] have "representable denoms (r mod d)" .
  then have "representable denoms (r mod d + int (nat (r div d)) * d)"
    using dmem by (rule representable_add_coins)
  moreover from dpos Cons.prems(2) have "0 \<le> r div d"
    by (simp add: pos_imp_zdiv_nonneg_iff)
  ultimately show ?case by simp
qed

lemma is_valid_representable:
  assumes "\<forall>d\<in>set denoms. 0 < d"
    and "is_valid_denomination_amount denoms amount = Inr True"
  shows "representable denoms amount"
proof -
  from assms(2) have pos: "0 < amount"
    by (simp add: is_valid_True_no_zero)
  with assms(2) have "mod_loop (sorted_reverse denoms) amount = Inr 0"
    by (auto simp: is_valid_denomination_amount_def split: sum.splits)
  moreover from assms(1) have "\<forall>d\<in>set (sorted_reverse denoms). 0 < d \<and> d \<in> set denoms"
    by (simp add: set_sorted_reverse)
  ultimately show ?thesis
    using pos by (intro mod_loop_representable [of "sorted_reverse denoms"]) simp_all
qed

lemma representable_mono:
  "representable ds n \<Longrightarrow> set ds \<subseteq> set ds' \<Longrightarrow> representable ds' n"
  by (induction rule: representable.induct) (auto intro: representable.intros)

lemma combination_representable:
  "length cs = length ds \<Longrightarrow> representable ds (combination cs ds)"
proof (induction cs ds rule: list_induct2)
  case Nil
  then show ?case by (simp add: combination_def empty_sum)
next
  case (Cons c cs d ds)
  from Cons.IH have "representable (d # ds) (combination cs ds)"
    by (rule representable_mono) auto
  then have "representable (d # ds) (combination cs ds + int c * d)"
    by (rule representable_add_coins) simp
  then show ?case by (simp add: combination_def add.commute)
qed

lemma combination_add_coin:
  "d \<in> set ds \<Longrightarrow> length cs = length ds \<Longrightarrow>
     \<exists>cs'. length cs' = length ds \<and> combination cs' ds = combination cs ds + d"
proof (induction ds arbitrary: cs)
  case Nil
  then show ?case by simp
next
  case (Cons x xs)
  from Cons.prems(2) obtain c cs0 where cs: "cs = c # cs0" and len: "length cs0 = length xs"
    by (cases cs) auto
  show ?case
  proof (cases "d = x")
    case True
    have "length (Suc c # cs0) = length (x # xs)" using len by simp
    moreover have "combination (Suc c # cs0) (x # xs) = combination cs (x # xs) + d"
      using True cs by (simp add: combination_def algebra_simps)
    ultimately show ?thesis by blast
  next
    case False
    with Cons.prems(1) have "d \<in> set xs" by simp
    from Cons.IH [OF this len] obtain cs' where
      "length cs' = length xs" "combination cs' xs = combination cs0 xs + d" by blast
    then have "length (c # cs') = length (x # xs) \<and>
               combination (c # cs') (x # xs) = combination cs (x # xs) + d"
      using cs by (simp add: combination_def)
    then show ?thesis by blast
  qed
qed

lemma representable_iff_combination:
  "representable ds n \<longleftrightarrow> (\<exists>cs. length cs = length ds \<and> n = combination cs ds)"
proof
  assume "representable ds n"
  then show "\<exists>cs. length cs = length ds \<and> n = combination cs ds"
  proof (induction rule: representable.induct)
    case empty_sum
    have "length (replicate (length ds) (0::nat)) = length ds" by simp
    moreover have "combination (replicate (length ds) 0) ds = 0"
      by (induction ds) (simp_all add: combination_def)
    ultimately show ?case by metis
  next
    case (add_coin n d)
    then obtain cs where "length cs = length ds" "n = combination cs ds" by blast
    with combination_add_coin [OF add_coin.hyps(2), of cs] show ?case by metis
  qed
next
  assume "\<exists>cs. length cs = length ds \<and> n = combination cs ds"
  then show "representable ds n" by (auto intro: combination_representable)
qed

lemma purchase_success_checks:
  "purchase denoms db item_id cash_inserted = (Inr outcome, db') \<Longrightarrow>
     \<exists>item.
       items db item_id = Some item \<and>
       is_valid_denomination_amount denoms cash_inserted = Inr True \<and>
       price item \<le> cash_inserted \<and>
       can_make_change denoms (cash_inserted - price item) = Inr True \<and>
       map_of outcome ''change_returned'' = Some (PyInt (cash_inserted - price item))"
  by (auto simp: purchase_def Let_def split: sum.splits option.splits if_splits)

text \<open>
  Claim C3.  With positive denominations, whenever a purchase succeeds, the cash inserted
  and the change returned are both sums of denomination values with repetition, that is
  combinations of the denominations with natural-number coefficients; a change of 0 is
  the empty sum.
\<close>

theorem successful_purchase_amounts_representable:
  assumes "\<forall>d\<in>set denoms. 0 < d"
    and "purchase denoms db item_id cash_inserted = (Inr outcome, db')"
  shows "representable denoms cash_inserted \<and>
         (\<exists>cs. length cs = length denoms \<and> cash_inserted = combination cs denoms) \<and>
         (\<exists>change.
            map_of outcome ''change_returned'' = Some (PyInt change) \<and>
            representable denoms change \<and>
            (\<exists>cs. length cs = length denoms \<and> change = combination cs denoms))"
proof -
  from purchase_success_checks [OF assms(2)] obtain item :: Item where
    v: "is_valid_denomination_amount denoms cash_inserted = Inr True" and
    p: "price item \<le> cash_inserted" and
    c: "can_make_change denoms (cash_inserted - price item) = Inr True" and
    o: "map_of outcome ''change_returned'' = Some (PyInt (cash_inserted - price item))"
    by blast
  have change: "representable denoms (cash_inserted - price item)"
  proof (cases "0 < cash_inserted - price item")
    case True
    with c have "is_valid_denomination_amount denoms (cash_inserted - price item) = Inr True"
      by (simp add: can_make_change_def)
    with assms(1) show ?thesis by (rule is_valid_representable)
  next
    case False
    with p have "cash_inserted - price item = 0" by simp
    then show ?thesis by (simp add: empty_sum)
  qed
  have cash: "representable denoms cash_inserted"
    by (rule is_valid_representable [OF assms(1) v])
  from cash change o show ?thesis
    by (auto simp: representable_iff_combination)
qed

theorem successful_purchase_amounts_representable_witness:
  "list_all (\<lambda>d. 0 < d) [1, 2, 5, 10 :: int] \<and>
   fst (purchase [1, 2, 5, 10] demo_db ''cola'' 15) =
     Inr [(''item'', PyStr ''Cola''),
          (''price'', PyInt 10),
          (''cash_inserted'', PyInt 15),
          (''change_returned'', PyInt 5),
          (''remaining_quantity'', PyInt 0),
          (''message'', PyStr ''Purchase successful'')] \<and>
   representable [1, 2, 5, 10] 15 \<and> representable [1, 2, 5, 10] 5 \<and>
   (\<exists>cs. length cs = length [1, 2, 5, 10 :: int] \<and> 15 = combination cs [1, 2, 5, 10]) \<and>
   (\<exists>cs. length cs = length [1, 2, 5, 10 :: int] \<and> 5 = combination cs [1, 2, 5, 10])"
proof -
  obtain outcome db' where p: "purchase [1, 2, 5, 10] demo_db ''cola'' 15 = (Inr outcome, db')"
    and o: "outcome = [(''item'', PyStr ''Cola''),
          (''price'', PyInt 10),
          (''cash_inserted'', PyInt 15),
          (''change_returned'', PyInt 5),
          (''remaining_quantity'', PyInt 0),
          (''message'', PyStr ''Purchase successful'')]"
    by (simp add: purchase_def is_valid_denomination_amount_def can_make_change_def
        sorted_reverse_def demo_db_def slot_def)
  have pos: "\<forall>d\<in>set [1, 2, 5, 10 :: int]. 0 < d" by simp
  from successful_purchase_amounts_representable [OF pos p] o p show ?thesis by simp
qed

end
